theory Spec2Isabelle
  imports Main "HOL-Library.Word"
begin

unbundle bit_operations_syntax

section \<open>Data model\<close>

text \<open>
  A Node.js \<open>Buffer\<close> is a list of bytes. JavaScript strings are modelled as
  \<open>string\<close>: lists of 8-bit characters, which covers every code unit that
  \<open>Buffer.from(s, 'ascii')\<close> keeps (it stores the low byte of each unit).
\<close>

type_synonym byte = "8 word"
type_synonym buffer = "byte list"

text \<open>
  An offset inside \<open>parseDomainName\<close> is a JavaScript number: a non-negative
  integer, or \<open>NaN\<close> once \<open>undefined\<close> (a read outside the buffer) has been
  added to it.
\<close>

datatype jsnum = Num nat | NaN

text \<open>The exceptions the code can throw.\<close>

datatype error =
    NotAResponse  \<comment> \<open>\<open>throw new Error('Not a DNS response.')\<close>\<close>
  | RangeError    \<comment> \<open>\<open>readUInt16BE\<close> outside the buffer\<close>
  | TypeError     \<comment> \<open>property read on \<open>undefined\<close>\<close>

record DNSRecord =
  rec_domainName :: string
  rec_type :: nat
  rec_rdata :: string
  rec_offset :: nat

record Header =
  transactionID :: nat
  questionsCount :: nat
  answersCount :: nat
  authorityCount :: nat
  additionalCount :: nat

record Response =
  header :: Header
  questionName :: string
  answerRecords :: "DNSRecord list"
  authorityRecords :: "DNSRecord list"
  additionalRecords :: "DNSRecord list"

definition A_RECORD_TYPE :: nat where "A_RECORD_TYPE = 1"
definition AAAA_RECORD_TYPE :: nat where "AAAA_RECORD_TYPE = 28"
definition NS_RECORD_TYPE :: nat where "NS_RECORD_TYPE = 2"
definition DNS_PORT :: nat where "DNS_PORT = 53"
definition ROOT_DNS_SERVER :: string where "ROOT_DNS_SERVER = ''198.41.0.4''"
definition DOMAIN_TO_RESOLVE :: string where "DOMAIN_TO_RESOLVE = ''www.google.com''"
definition HEX_BASE :: nat where "HEX_BASE = 16"

section \<open>Library functions of the platform\<close>

text \<open>\<open>String.prototype.split('.')\<close>: the empty string splits into one empty part.\<close>

fun splitDot :: "string \<Rightarrow> string list" where
  "splitDot [] = [[]]"
| "splitDot (c # cs) =
     (if c = CHR ''.'' then [] # splitDot cs
      else (c # hd (splitDot cs)) # tl (splitDot cs))"

text \<open>\<open>Array.prototype.join(sep)\<close>.\<close>

fun join :: "string \<Rightarrow> string list \<Rightarrow> string" where
  "join sep [] = []"
| "join sep [x] = x"
| "join sep (x # y # ys) = x @ sep @ join sep (y # ys)"

definition digitChar :: "nat \<Rightarrow> char" where
  "digitChar d = ''0123456789abcdef'' ! d"

text \<open>
  \<open>Number.prototype.toString(radix)\<close> on a non-negative integer; the code calls it
  with radix 16, and \<open>join\<close> on an array of numbers uses radix 10.
\<close>

function numberToString :: "nat \<Rightarrow> nat \<Rightarrow> string" where
  "numberToString radix n =
     (if radix < 2 \<or> n < radix then [digitChar n]
      else numberToString radix (n div radix) @ [digitChar (n mod radix)])"
  by pat_completeness auto
termination
  by (relation "measure snd") auto

text \<open>\<open>buf.toString('hex')\<close>: two lowercase digits per byte.\<close>

definition hexSlice :: "buffer \<Rightarrow> string" where
  "hexSlice rdata =
     concat (map (\<lambda>b. [digitChar (unat b div 16), digitChar (unat b mod 16)]) rdata)"

text \<open>The \<open>'ascii'\<close> decoder unsets the highest bit of every byte.\<close>

definition asciiOf :: "buffer \<Rightarrow> string" where
  "asciiOf bytes = map (\<lambda>b. char_of (unat (b AND 0x7F))) bytes"

text \<open>\<open>buf.toString('ascii', start, end)\<close>: the range is clamped to the buffer.\<close>

definition asciiSlice :: "buffer \<Rightarrow> nat \<Rightarrow> nat \<Rightarrow> string" where
  "asciiSlice buffer start end = asciiOf (take (end - start) (drop start buffer))"

text \<open>\<open>buf.slice(start, end)\<close>, clamped to the buffer.\<close>

definition sliceBuffer :: "buffer \<Rightarrow> nat \<Rightarrow> nat \<Rightarrow> buffer" where
  "sliceBuffer buffer start end = take (end - start) (drop start buffer)"

text \<open>\<open>buf.readUInt16BE(offset)\<close> throws when either byte is outside the buffer.\<close>

definition readUInt16BE :: "buffer \<Rightarrow> nat \<Rightarrow> error + nat" where
  "readUInt16BE buffer offset =
     (if offset + 1 < length buffer
      then Inr (unat (buffer ! offset) * 2 ^ 8 + unat (buffer ! (offset + 1)))
      else Inl RangeError)"

section \<open>parseDomainName.ts\<close>

definition isEndOfName :: "byte \<Rightarrow> bool" where
  "isEndOfName lengthByte = (lengthByte = 0)"

definition isPointerIndicator :: "byte \<Rightarrow> bool" where
  "isPointerIndicator lengthByte = (lengthByte AND 0xC0 = 0xC0)"

text \<open>
  \<open>buffer[currentOffset + 1]\<close> is \<open>undefined\<close> outside the buffer, and
  \<open>x | undefined\<close> is \<open>x\<close>.
\<close>

definition calculatePointerOffset :: "byte \<Rightarrow> buffer \<Rightarrow> nat \<Rightarrow> nat" where
  "calculatePointerOffset lengthByte buffer currentOffset =
     unat (push_bit 8 (ucast (lengthByte AND 0x3F) :: 32 word)
           OR (if currentOffset + 1 < length buffer
               then ucast (buffer ! (currentOffset + 1)) else 0))"

definition readLabel :: "buffer \<Rightarrow> nat \<Rightarrow> nat \<Rightarrow> string" where
  "readLabel buffer offset len =
     (let startOfLabel = offset + 1;
          endOfLabel = startOfLabel + len
      in asciiSlice buffer startOfLabel endOfLabel)"

text \<open>
  The variables of the \<open>while (true)\<close> loop: \<open>name\<close>, \<open>hasEncounteredPointer\<close>,
  \<open>originalOffset\<close>, \<open>offset\<close>.
\<close>

type_synonym loopState = "string \<times> bool \<times> nat \<times> jsnum"

text \<open>
  One iteration of the loop: \<open>Inr\<close> is the \<open>break\<close> with the value the function
  returns, \<open>Inl\<close> the state at the next iteration. Outside the buffer \<open>lengthByte\<close>
  is \<open>undefined\<close>: it is neither \<open>0\<close> nor a pointer, \<open>readLabel\<close> returns the
  empty string and \<open>offset + undefined + 1\<close> is \<open>NaN\<close>.
\<close>

fun loopStep :: "buffer \<Rightarrow> loopState \<Rightarrow> loopState + (string \<times> nat)" where
  "loopStep buffer (name, hasEncounteredPointer, originalOffset, NaN) =
     Inl (name @ ''.'', hasEncounteredPointer, originalOffset, NaN)"
| "loopStep buffer (name, hasEncounteredPointer, originalOffset, Num offset) =
     (if offset < length buffer then
        (let lengthByte = buffer ! offset in
         if isEndOfName lengthByte then
           Inr (name, if hasEncounteredPointer then originalOffset else offset + 1)
         else if isPointerIndicator lengthByte then
           Inl (name, True,
                if \<not> hasEncounteredPointer then offset + 2 else originalOffset,
                Num (calculatePointerOffset lengthByte buffer offset))
         else
           Inl (name @ readLabel buffer offset (unat lengthByte) @ ''.'',
                hasEncounteredPointer, originalOffset,
                Num (offset + unat lengthByte + 1)))
      else Inl (name @ ''.'', hasEncounteredPointer, originalOffset, NaN))"

text \<open>The loop itself; \<open>None\<close> is a loop that never ends.\<close>

partial_function (option) parseLoop :: "buffer \<Rightarrow> loopState \<Rightarrow> (string \<times> nat) option" where
  "parseLoop buffer st =
     (case loopStep buffer st of
        Inr result \<Rightarrow> Some result
      | Inl st' \<Rightarrow> parseLoop buffer st')"

declare parseLoop.simps [code]

definition parseDomainName :: "buffer \<Rightarrow> nat \<Rightarrow> (string \<times> nat) option" where
  "parseDomainName buffer offset = parseLoop buffer ([], False, offset, Num offset)"

section \<open>interpretRDataARecord.ts\<close>

definition interpretIPv4Address :: "buffer \<Rightarrow> string" where
  "interpretIPv4Address rdata = join ''.'' (map (\<lambda>b. numberToString 10 (unat b)) rdata)"

function interpretIPv6Loop :: "buffer \<Rightarrow> nat \<Rightarrow> string list \<Rightarrow> error + string list" where
  "interpretIPv6Loop rdata byteIndex parts =
     (if byteIndex < length rdata then
        (case readUInt16BE rdata byteIndex of
           Inl e \<Rightarrow> Inl e
         | Inr groupValue \<Rightarrow>
             interpretIPv6Loop rdata (byteIndex + 2)
               (parts @ [numberToString HEX_BASE groupValue]))
      else Inr parts)"
  by pat_completeness auto
termination
  by (relation "measure (\<lambda>(rdata, byteIndex, parts). length rdata - byteIndex)") auto

definition interpretIPv6Address :: "buffer \<Rightarrow> error + string" where
  "interpretIPv6Address rdata =
     (case interpretIPv6Loop rdata 0 [] of
        Inl e \<Rightarrow> Inl e
      | Inr parts \<Rightarrow> Inr (join '':'' parts))"

definition interpretRDataARecord :: "buffer \<Rightarrow> nat \<Rightarrow> error + string" where
  "interpretRDataARecord rdata type =
     (if type = A_RECORD_TYPE then Inr (interpretIPv4Address rdata)
      else if type = AAAA_RECORD_TYPE then interpretIPv6Address rdata
      else Inr (hexSlice rdata))"

section \<open>encodeDomainName.ts and createDNSQuery.ts\<close>

text \<open>\<open>Buffer.from([part.length])\<close> keeps the length modulo 256.\<close>

definition encodeDomainName :: "string \<Rightarrow> buffer" where
  "encodeDomainName domain =
     (let parts = splitDot domain;
          buffers = map (\<lambda>part. [of_nat (length part)] @ map of_char part) parts
      in concat (buffers @ [[0]]))"

text \<open>The identifier is a parameter; its default value is two random bytes.\<close>

definition createDNSQuery :: "string \<Rightarrow> buffer \<Rightarrow> buffer" where
  "createDNSQuery domain identifier =
     (let flags = [0x00, 0x00];
          questionCount = [0x00, 0x01];
          answerRR = [0x00, 0x00];
          authorityRR = [0x00, 0x00];
          additionalRR = [0x00, 0x00];
          encodedDomain = encodeDomainName domain;
          type = [0x00, 0x01];
          classBuffer = [0x00, 0x01]
      in concat [identifier, flags, questionCount, answerRR, authorityRR, additionalRR,
                 encodedDomain, type, classBuffer])"

section \<open>parseResponse.ts\<close>

definition isResponse :: "buffer \<Rightarrow> error + bool" where
  "isResponse buffer =
     (case readUInt16BE buffer 2 of
        Inl e \<Rightarrow> Inl e
      | Inr flags \<Rightarrow> Inr (flags AND 0x8000 \<noteq> 0))"

definition parseHeader :: "buffer \<Rightarrow> error + Header" where
  "parseHeader buffer =
     (case readUInt16BE buffer 0 of Inl e \<Rightarrow> Inl e | Inr v0 \<Rightarrow>
      case readUInt16BE buffer 4 of Inl e \<Rightarrow> Inl e | Inr v4 \<Rightarrow>
      case readUInt16BE buffer 6 of Inl e \<Rightarrow> Inl e | Inr v6 \<Rightarrow>
      case readUInt16BE buffer 8 of Inl e \<Rightarrow> Inl e | Inr v8 \<Rightarrow>
      case readUInt16BE buffer 10 of Inl e \<Rightarrow> Inl e | Inr v10 \<Rightarrow>
        Inr \<lparr>transactionID = v0, questionsCount = v4, answersCount = v6,
             authorityCount = v8, additionalCount = v10\<rparr>)"

definition parseQuestionSection :: "buffer \<Rightarrow> nat \<Rightarrow> (string \<times> nat) option" where
  "parseQuestionSection buffer offset = parseDomainName buffer offset"

text \<open>
  Results of the functions below: \<open>None\<close> when a name inside never stops decoding,
  \<open>Some (Inl e)\<close> when \<open>e\<close> is thrown, \<open>Some (Inr v)\<close> when \<open>v\<close> is returned.
\<close>

definition parseRecord :: "buffer \<Rightarrow> nat \<Rightarrow> (error + DNSRecord) option" where
  "parseRecord buffer offset =
     (case parseDomainName buffer offset of
        None \<Rightarrow> None
      | Some (ownerName, offset1) \<Rightarrow>
         (case readUInt16BE buffer offset1 of
            Inl e \<Rightarrow> Some (Inl e)
          | Inr type \<Rightarrow>
             (let offset2 = offset1 + 2 + 2 + 4 in
              case readUInt16BE buffer offset2 of
                Inl e \<Rightarrow> Some (Inl e)
              | Inr dataLength \<Rightarrow>
                 (let offset3 = offset2 + 2 in
                  if type = NS_RECORD_TYPE then
                    (case parseDomainName buffer offset3 of
                       None \<Rightarrow> None
                     | Some (domainName, newOffset) \<Rightarrow>
                         Some (Inr \<lparr>rec_domainName = ownerName, rec_type = type,
                                    rec_rdata = domainName, rec_offset = newOffset\<rparr>))
                  else
                    (case interpretRDataARecord
                            (sliceBuffer buffer offset3 (offset3 + dataLength)) type of
                       Inl e \<Rightarrow> Some (Inl e)
                     | Inr rdata \<Rightarrow>
                         Some (Inr \<lparr>rec_domainName = ownerName, rec_type = type,
                                    rec_rdata = rdata,
                                    rec_offset = offset3 + dataLength\<rparr>))))))"

text \<open>The \<open>for\<close> loop of \<open>parseSections\<close>, by recursion on the records left to parse.\<close>

fun parseSections :: "buffer \<Rightarrow> nat \<Rightarrow> nat \<Rightarrow> (error + DNSRecord list) option" where
  "parseSections buffer 0 startOffset = Some (Inr [])"
| "parseSections buffer (Suc count) startOffset =
     (case parseRecord buffer startOffset of
        None \<Rightarrow> None
      | Some (Inl e) \<Rightarrow> Some (Inl e)
      | Some (Inr record) \<Rightarrow>
         (case parseSections buffer count (rec_offset record) of
            None \<Rightarrow> None
          | Some (Inl e) \<Rightarrow> Some (Inl e)
          | Some (Inr records) \<Rightarrow> Some (Inr (record # records))))"

definition updateOffset :: "DNSRecord list \<Rightarrow> nat \<Rightarrow> nat" where
  "updateOffset records currentOffset =
     (if length records > 0 then rec_offset (records ! (length records - 1))
      else currentOffset)"

definition parseResponse :: "buffer \<Rightarrow> (error + Response) option" where
  "parseResponse buffer =
     (case isResponse buffer of
        Inl e \<Rightarrow> Some (Inl e)
      | Inr False \<Rightarrow> Some (Inl NotAResponse)
      | Inr True \<Rightarrow>
         (case parseHeader buffer of
            Inl e \<Rightarrow> Some (Inl e)
          | Inr hdr \<Rightarrow>
             (case parseQuestionSection buffer 12 of
                None \<Rightarrow> None
              | Some (qName, qOffset) \<Rightarrow>
                 (let offset = qOffset + 4 in
                  case parseSections buffer (answersCount hdr) offset of
                    None \<Rightarrow> None
                  | Some (Inl e) \<Rightarrow> Some (Inl e)
                  | Some (Inr answers) \<Rightarrow>
                     (let offset = updateOffset answers offset in
                      case parseSections buffer (authorityCount hdr) offset of
                        None \<Rightarrow> None
                      | Some (Inl e) \<Rightarrow> Some (Inl e)
                      | Some (Inr authority) \<Rightarrow>
                         (let offset = updateOffset authority offset in
                          case parseSections buffer (additionalCount hdr) offset of
                            None \<Rightarrow> None
                          | Some (Inl e) \<Rightarrow> Some (Inl e)
                          | Some (Inr additional) \<Rightarrow>
                              Some (Inr \<lparr>header = hdr, questionName = qName,
                                         answerRecords = answers,
                                         authorityRecords = authority,
                                         additionalRecords = additional\<rparr>)))))))"

section \<open>index.ts\<close>

text \<open>
  What a call of \<open>processDNSResponse\<close> does besides returning: it calls
  \<open>queryDNS\<close>, or logs the address, or does nothing at all.
\<close>

datatype effect =
    CallQueryDNS string string  \<comment> \<open>\<open>queryDNS(domain, server)\<close>\<close>
  | LogAddress string           \<comment> \<open>\<open>console.log('IP Address found: ', rdata)\<close>\<close>
  | NoEffect

definition processDNSResponse :: "Response \<Rightarrow> error + effect" where
  "processDNSResponse response =
     (let nsRecords = filter (\<lambda>rec. rec_type rec = NS_RECORD_TYPE) (authorityRecords response)
      in if length nsRecords > 0 then
           (let nsRecord = nsRecords ! 0;
                nsIP = map_option rec_rdata
                         (find (\<lambda>rec. rec_domainName rec = rec_rdata nsRecord)
                               (additionalRecords response))
            in case nsIP of
                 None \<Rightarrow> Inr NoEffect
               | Some ip \<Rightarrow> if ip \<noteq> [] then Inr (CallQueryDNS DOMAIN_TO_RESOLVE ip)
                            else Inr NoEffect)
         else
           (case answerRecords response of
              [] \<Rightarrow> Inl TypeError
            | answerRecord # rest \<Rightarrow> Inr (LogAddress (rec_rdata answerRecord))))"

text \<open>
  \<open>queryDNS\<close> sends one datagram: the query for \<open>domain\<close> to port 53 of \<open>server\<close>.
\<close>

definition queryDNS :: "string \<Rightarrow> string \<Rightarrow> buffer \<Rightarrow> buffer \<times> nat \<times> string" where
  "queryDNS domain server identifier = (createDNSQuery domain identifier, DNS_PORT, server)"

text \<open>
  The \<open>'message'\<close> handler of the socket: parse, then process. An exception of either
  leaves the handler uncaught.
\<close>

definition onMessage :: "buffer \<Rightarrow> (error + effect) option" where
  "onMessage message =
     (case parseResponse message of
        None \<Rightarrow> None
      | Some (Inl e) \<Rightarrow> Some (Inl e)
      | Some (Inr response) \<Rightarrow> Some (processDNSResponse response))"

section \<open>Notions used to state the properties\<close>

text \<open>
  The state of the loop of \<open>parseDomainName\<close> after \<open>n\<close> iterations, when none of
  them was the \<open>break\<close>.
\<close>

fun runSteps :: "nat \<Rightarrow> buffer \<Rightarrow> loopState \<Rightarrow> loopState option" where
  "runSteps 0 buffer st = Some st"
| "runSteps (Suc n) buffer st =
     (case loopStep buffer st of
        Inl st' \<Rightarrow> runSteps n buffer st'
      | Inr result \<Rightarrow> None)"

text \<open>A label on the wire: its length, then its bytes.\<close>

definition encodeLabel :: "buffer \<Rightarrow> buffer" where
  "encodeLabel l = of_nat (length l) # l"


text \<open>A 16-bit number as two bytes, the high one first.\<close>

definition uint16BE :: "nat \<Rightarrow> buffer" where
  "uint16BE n = [of_nat (n div 256), of_nat (n mod 256)]"

text \<open>The number a string of lowercase hexadecimal digits stands for.\<close>

definition hexDigitValue :: "char \<Rightarrow> nat" where
  "hexDigitValue c =
     (if of_char c < (58::nat) then of_char c - 48 else of_char c - 87)"

definition hexValue :: "string \<Rightarrow> nat" where
  "hexValue s = foldl (\<lambda>acc c. 16 * acc + hexDigitValue c) 0 s"

text \<open>The \<open>i\<close>-th 16-bit big-endian group of a buffer.\<close>

definition group16 :: "buffer \<Rightarrow> nat \<Rightarrow> nat" where
  "group16 rdata i = unat (rdata ! (2 * i)) * 256 + unat (rdata ! (2 * i + 1))"

subsection \<open>Example messages\<close>


definition noGlueMessage :: buffer where
  "noGlueMessage =
     [0x12, 0x34, 0x80, 0x00, 0x00, 0x01, 0x00, 0x00, 0x00, 0x01, 0x00, 0x00,
      0x01, 0x61, 0x00, 0x00, 0x01, 0x00, 0x01,
      0xC0, 0x0C, 0x00, 0x02, 0x00, 0x01, 0x00, 0x00, 0x00, 0x00, 0x00, 0x04,
      0x02, 0x6E, 0x73, 0x00]"

definition emptyGlueMessage :: buffer where
  "emptyGlueMessage =
     [0x12, 0x34, 0x80, 0x00, 0x00, 0x01, 0x00, 0x00, 0x00, 0x01, 0x00, 0x01,
      0x01, 0x61, 0x00, 0x00, 0x01, 0x00, 0x01,
      0xC0, 0x0C, 0x00, 0x02, 0x00, 0x01, 0x00, 0x00, 0x00, 0x00, 0x00, 0x04,
      0x02, 0x6E, 0x73, 0x00,
      0xC0, 0x1F, 0x00, 0x01, 0x00, 0x01, 0x00, 0x00, 0x00, 0x00, 0x00, 0x00]"



section \<open>Evaluation\<close>

declare numberToString.simps [simp del]
declare interpretIPv6Loop.simps [simp del]

lemmas eval_simps = parseResponse_def isResponse_def parseHeader_def readUInt16BE_def
  parseQuestionSection_def parseRecord_def parseDomainName_def parseLoop.simps
  isEndOfName_def isPointerIndicator_def calculatePointerOffset_def readLabel_def
  asciiSlice_def asciiOf_def char_of_def bit_0 sliceBuffer_def interpretRDataARecord_def
  interpretIPv4Address_def interpretIPv6Address_def interpretIPv6Loop.simps
  numberToString.simps hexSlice_def digitChar_def updateOffset_def
  NS_RECORD_TYPE_def A_RECORD_TYPE_def AAAA_RECORD_TYPE_def HEX_BASE_def Let_def


lemma parse_noGlueMessage:
  "parseResponse noGlueMessage = Some (Inr
     \<lparr>header = \<lparr>transactionID = 4660, questionsCount = 1, answersCount = 0,
                 authorityCount = 1, additionalCount = 0\<rparr>,
      questionName = ''a.'', answerRecords = [],
      authorityRecords = [\<lparr>rec_domainName = ''a.'', rec_type = 2, rec_rdata = ''ns.'',
                            rec_offset = 35\<rparr>],
      additionalRecords = []\<rparr>)"
  by (simp add: noGlueMessage_def eval_simps)

lemma parse_emptyGlueMessage:
  "parseResponse emptyGlueMessage = Some (Inr
     \<lparr>header = \<lparr>transactionID = 4660, questionsCount = 1, answersCount = 0,
                 authorityCount = 1, additionalCount = 1\<rparr>,
      questionName = ''a.'', answerRecords = [],
      authorityRecords = [\<lparr>rec_domainName = ''a.'', rec_type = 2, rec_rdata = ''ns.'',
                            rec_offset = 35\<rparr>],
      additionalRecords = [\<lparr>rec_domainName = ''ns.'', rec_type = 1, rec_rdata = [],
                             rec_offset = 47\<rparr>]\<rparr>)"
  by (simp add: emptyGlueMessage_def eval_simps)



section \<open>Loops that never end\<close>

text \<open>
  A set of loop states that every iteration maps into itself, without ever reaching the
  \<open>break\<close>, is a set of states from which \<open>parseLoop\<close> does not return.
\<close>

lemma parseLoop_diverges:
  assumes inv: "\<And>s. I s \<Longrightarrow> \<exists>s'. loopStep buffer s = Inl s' \<and> I s'"
    and start: "I st"
  shows "parseLoop buffer st = None"
proof (cases "parseLoop buffer st")
  case None
  then show ?thesis .
next
  case (Some r)
  have "buffer = buffer \<longrightarrow> \<not> I st"
  proof (rule parseLoop.raw_induct[where P = "\<lambda>b s y. b = buffer \<longrightarrow> \<not> I s", OF _ Some])
    fix f b s y
    assume IH: "\<And>b' s' y'. f b' s' = Some y' \<Longrightarrow> b' = buffer \<longrightarrow> \<not> I s'"
      and body: "(case loopStep b s of Inl st' \<Rightarrow> f b st' | Inr result \<Rightarrow> Some result) = Some y"
    show "b = buffer \<longrightarrow> \<not> I s"
    proof (intro impI notI)
      assume b: "b = buffer" and "I s"
      from inv[OF \<open>I s\<close>] obtain s' where s': "loopStep buffer s = Inl s'" and "I s'"
        by (elim exE conjE)
      from body have "f buffer s' = Some y"
        unfolding b s' by simp
      from IH[OF this] \<open>I s'\<close> show False by simp
    qed
  qed
  with start show ?thesis by simp
qed

lemma parseLoop_NaN: "parseLoop buffer (name, h, orig, NaN) = None"
  by (rule parseLoop_diverges[where I = "\<lambda>s. snd (snd (snd s)) = NaN"]) auto

lemma parseLoop_outside:
  "length buffer \<le> offset \<Longrightarrow> parseLoop buffer (name, h, orig, Num offset) = None"
  by (subst parseLoop.simps) (simp add: parseLoop_NaN)

lemma pointer_not_end: "isPointerIndicator b \<Longrightarrow> \<not> isEndOfName b"
  by (auto simp: isEndOfName_def isPointerIndicator_def)

lemma parseLoop_self_pointer:
  assumes "p < length buffer" "isPointerIndicator (buffer ! p)"
    "calculatePointerOffset (buffer ! p) buffer p = p"
  shows "parseLoop buffer (name, h, orig, Num p) = None"
  by (rule parseLoop_diverges[where I = "\<lambda>s. fst s = name \<and> snd (snd (snd s)) = Num p"])
     (use assms pointer_not_end[OF assms(2)] in \<open>auto simp: Let_def\<close>)

lemma parseLoop_pointer:
  assumes "p < length buffer" "isPointerIndicator (buffer ! p)"
  shows "parseLoop buffer (name, h, orig, Num p) =
         parseLoop buffer (name, True, if h then orig else p + 2,
                           Num (calculatePointerOffset (buffer ! p) buffer p))"
  by (subst parseLoop.simps) (use assms pointer_not_end[OF assms(2)] in \<open>simp add: Let_def\<close>)

lemma parseLoop_end:
  assumes "p < length buffer" "isEndOfName (buffer ! p)"
  shows "parseLoop buffer (name, h, orig, Num p) = Some (name, if h then orig else p + 1)"
  by (subst parseLoop.simps) (use assms in \<open>simp add: Let_def\<close>)

section \<open>Iterations of the loop\<close>

lemma runSteps_parseLoop:
  "runSteps n buffer st = Some st' \<Longrightarrow> parseLoop buffer st = parseLoop buffer st'"
proof (induction n arbitrary: st)
  case 0
  then show ?case by simp
next
  case (Suc n)
  then obtain st1 where st1: "loopStep buffer st = Inl st1" and r: "runSteps n buffer st1 = Some st'"
    by (auto split: sum.splits)
  have "parseLoop buffer st = parseLoop buffer st1"
    by (subst parseLoop.simps) (simp add: st1)
  with Suc.IH[OF r] show ?case by simp
qed

lemma parseLoop_after_pointer:
  assumes "parseLoop buffer (name, True, orig, off) = Some r"
  shows "snd r = orig"
proof -
  have "fst (snd st) \<and> fst (snd (snd st)) = orig \<longrightarrow> snd r = orig" 
    if "parseLoop buffer st = Some r" for st
  proof (rule parseLoop.raw_induct[where P = "\<lambda>b s y. fst (snd s) \<and> fst (snd (snd s)) = orig \<longrightarrow> snd y = orig", OF _ that])
    fix f b s y
    assume IH: "\<And>b' s' y'. f b' s' = Some y' \<Longrightarrow> fst (snd s') \<and> fst (snd (snd s')) = orig \<longrightarrow> snd y' = orig"
      and body: "(case loopStep b s of Inl st' \<Rightarrow> f b st' | Inr result \<Rightarrow> Some result) = Some y"
    obtain nm h og off' where s: "s = (nm, h, og, off')" by (cases s) auto
    show "fst (snd s) \<and> fst (snd (snd s)) = orig \<longrightarrow> snd y = orig"
    proof (intro impI)
      assume a: "fst (snd s) \<and> fst (snd (snd s)) = orig"
      with s have h: "h" and og: "og = orig" by simp_all
      show "snd y = orig"
      proof (cases "loopStep b s")
        case (Inr res)
        with body have "y = res" by simp
        with Inr s h og show ?thesis
          by (cases off') (auto simp: Let_def split: if_splits)
      next
        case (Inl s1)
        with body have "f b s1 = Some y" by simp
        moreover from Inl s h og have "fst (snd s1) \<and> fst (snd (snd s1)) = orig"
          by (cases off') (auto simp: Let_def split: if_splits)
        ultimately show ?thesis using IH by blast
      qed
    qed
  qed
  from this[OF assms] show ?thesis by simp
qed

lemma loopStep_literal:
  assumes "p < length buffer" "\<not> isEndOfName (buffer ! p)" "\<not> isPointerIndicator (buffer ! p)"
  shows "loopStep buffer (name, h, orig, Num p) =
         Inl (name @ readLabel buffer p (unat (buffer ! p)) @ ''.'', h, orig,
              Num (p + unat (buffer ! p) + 1))"
  using assms by (simp add: Let_def)

lemma small_not_pointer: "n \<le> 191 \<Longrightarrow> \<not> isPointerIndicator (of_nat n)"
proof
  assume n: "n \<le> 191" and "isPointerIndicator (of_nat n)"
  then have "(of_nat n :: byte) AND 0xC0 = 0xC0" by (simp add: isPointerIndicator_def)
  moreover have "(of_nat n :: byte) AND 0xC0 \<le> of_nat n" by (rule word_and_le2)
  ultimately have "(0xC0 :: byte) \<le> of_nat n" by simp
  then have "unat (0xC0 :: byte) \<le> unat (of_nat n :: byte)" by (simp add: word_le_nat_alt)
  with n show False by (simp add: unat_of_nat)
qed

lemma positive_not_end: "0 < n \<Longrightarrow> n < 256 \<Longrightarrow> \<not> isEndOfName (of_nat n)"
proof
  assume n: "0 < n" "n < 256" and "isEndOfName (of_nat n)"
  then have "unat (of_nat n :: byte) = 0" by (simp add: isEndOfName_def)
  with n show False by (simp add: unat_of_nat)
qed

lemma readLabel_at:
  "readLabel (pre @ x # l @ post) (length pre) (length l) = asciiOf l"
  by (simp add: readLabel_def asciiSlice_def Let_def)

lemma loopStep_label:
  assumes "0 < length l" "length l \<le> 191"
  shows "loopStep (pre @ of_nat (length l) # l @ post) (name, h, orig, Num (length pre)) =
         Inl (name @ asciiOf l @ ''.'', h, orig, Num (length (pre @ of_nat (length l) # l)))"
proof -
  let ?b = "pre @ of_nat (length l) # l @ post"
  have at: "?b ! length pre = of_nat (length l)" by simp
  have u: "unat (of_nat (length l) :: byte) = length l"
    using assms by (simp add: unat_of_nat)
  have "loopStep ?b (name, h, orig, Num (length pre)) =
        Inl (name @ readLabel ?b (length pre) (unat (?b ! length pre)) @ ''.'', h, orig,
             Num (length pre + unat (?b ! length pre) + 1))"
    by (rule loopStep_literal) (use assms in \<open>simp_all add: positive_not_end small_not_pointer\<close>)
  then show ?thesis
    unfolding at u readLabel_at by simp
qed

lemma walk_labels:
  assumes "\<forall>l \<in> set ls. 0 < length l \<and> length l \<le> 191"
  shows "runSteps (length ls) (pre @ concat (map encodeLabel ls) @ rest)
           (name, h, orig, Num (length pre)) =
         Some (name @ concat (map (\<lambda>l. asciiOf l @ ''.'') ls), h, orig,
               Num (length pre + length (concat (map encodeLabel ls))))"
  using assms
proof (induction ls arbitrary: pre name)
  case Nil
  then show ?case by simp
next
  case (Cons l ls)
  let ?pre = "pre @ of_nat (length l) # l"
  have l: "0 < length l" "length l \<le> 191" using Cons.prems by simp_all
  have buf: "pre @ concat (map encodeLabel (l # ls)) @ rest =
             pre @ of_nat (length l) # l @ (concat (map encodeLabel ls) @ rest)"
    by (simp add: encodeLabel_def[of l])
  have buf': "pre @ concat (map encodeLabel (l # ls)) @ rest =
              ?pre @ concat (map encodeLabel ls) @ rest"
    by (simp add: encodeLabel_def[of l])
  have step: "loopStep (pre @ concat (map encodeLabel (l # ls)) @ rest)
                (name, h, orig, Num (length pre)) =
              Inl (name @ asciiOf l @ ''.'', h, orig, Num (length ?pre))"
    unfolding buf by (rule loopStep_label[OF l])
  have rest: "runSteps (length ls) (?pre @ concat (map encodeLabel ls) @ rest)
                (name @ asciiOf l @ ''.'', h, orig, Num (length ?pre)) =
              Some ((name @ asciiOf l @ ''.'') @ concat (map (\<lambda>l. asciiOf l @ ''.'') ls), h, orig,
                    Num (length ?pre + length (concat (map encodeLabel ls))))"
    by (rule Cons.IH) (use Cons.prems in simp)
  have "runSteps (Suc (length ls)) (pre @ concat (map encodeLabel (l # ls)) @ rest)
          (name, h, orig, Num (length pre)) =
        runSteps (length ls) (pre @ concat (map encodeLabel (l # ls)) @ rest)
          (name @ asciiOf l @ ''.'', h, orig, Num (length ?pre))"
    by (simp only: runSteps.simps step sum.case)
  also have "\<dots> = Some ((name @ asciiOf l @ ''.'') @ concat (map (\<lambda>l. asciiOf l @ ''.'') ls), h, orig,
                    Num (length ?pre + length (concat (map encodeLabel ls))))"
    unfolding buf' by (rule rest)
  finally show ?case
    by (simp add: encodeLabel_def[of l] del: runSteps.simps loopStep.simps)
qed

lemma splitDot_nonempty: "splitDot d \<noteq> []"
  by (induction d) auto

lemma splitDot_join: "concat (map (\<lambda>l. l @ ''.'') (splitDot d)) = d @ ''.''"
proof (induction d)
  case Nil
  then show ?case by simp
next
  case (Cons c d)
  obtain p ps where ps: "splitDot d = p # ps"
    using splitDot_nonempty[of d] by (cases "splitDot d") auto
  with Cons show ?case by auto
qed

lemma ascii_char: "of_char c < (128::nat) \<Longrightarrow> char_of (unat ((of_char c :: byte) AND 0x7F)) = c"
proof -
  assume c: "of_char c < (128::nat)"
  have oc: "(of_char c :: byte) = of_nat (of_char c)" by (simp add: of_nat_of_char)
  have u: "unat (of_char c :: byte) = of_char c"
    unfolding oc using c by (simp add: unat_of_nat)
  have "(of_char c :: byte) < 2 ^ 7"
    using c u by (simp add: word_less_nat_alt)
  then have "(of_char c :: byte) AND mask 7 = of_char c"
    by (rule less_mask_eq)
  then have "(of_char c :: byte) AND 0x7F = of_char c" by (simp add: mask_eq_exp_minus_1)
  with u show ?thesis by simp
qed

lemma asciiOf_of_char:
  "\<forall>c \<in> set l. of_char c < (128::nat) \<Longrightarrow> asciiOf (map of_char l) = l"
  by (induction l) (simp_all add: asciiOf_def ascii_char)

lemma parse_encoded_labels_at:
  assumes "\<forall>l \<in> set ls. 0 < length l \<and> length l \<le> 191"
  shows "parseDomainName (pre @ concat (map encodeLabel ls) @ 0 # post) (length pre) =
         Some (concat (map (\<lambda>l. asciiOf l @ ''.'') ls),
               length pre + length (concat (map encodeLabel ls)) + 1)"
proof -
  let ?b = "pre @ concat (map encodeLabel ls) @ 0 # post"
  let ?n = "length pre + length (concat (map encodeLabel ls))"
  let ?name = "concat (map (\<lambda>l. asciiOf l @ ''.'') ls)"
  have "runSteps (length ls) ?b ([], False, length pre, Num (length pre)) =
        Some ([] @ ?name, False, length pre, Num ?n)"
    by (rule walk_labels[OF assms])
  then have "parseLoop ?b ([], False, length pre, Num (length pre)) =
             parseLoop ?b ([] @ ?name, False, length pre, Num ?n)"
    by (rule runSteps_parseLoop)
  also have "\<dots> = Some ([] @ ?name, if False then length pre else ?n + 1)"
    by (rule parseLoop_end) (simp_all add: isEndOfName_def nth_append)
  finally show ?thesis by (simp add: parseDomainName_def)
qed

section \<open>Compression pointers are followed unchecked\<close>

text \<open>
  Claim C1, as the code has it. \<open>parseDomainName\<close> compares no pointer target with the
  position of the pointer and throws nothing. A pointer whose target is its own position
  makes the loop run forever, and \<open>parseResponse\<close> with it when that pointer is the
  question name at offset 12 of a response. A pointer whose target holds the zero byte,
  wherever that is, makes \<open>parseDomainName\<close> return the empty name and the position
  after the pointer.
\<close>

theorem pointer_target_unchecked:
  assumes "p < length buffer"
    and "isPointerIndicator (buffer ! p)"
    and "calculatePointerOffset (buffer ! p) buffer p = t"
  shows "(t = p \<longrightarrow> parseDomainName buffer p = None) \<and>
         (t = p \<and> p = 12 \<and> isResponse buffer = Inr True \<longrightarrow> parseResponse buffer = None) \<and>
         (t < length buffer \<and> isEndOfName (buffer ! t) \<longrightarrow>
            parseDomainName buffer p = Some ([], p + 2))"
proof (intro conjI impI)
  assume "t = p"
  with assms show "parseDomainName buffer p = None"
    by (simp add: parseDomainName_def parseLoop_self_pointer)
next
  assume a: "t = p \<and> p = 12 \<and> isResponse buffer = Inr True"
  with assms have "parseDomainName buffer 12 = None"
    by (simp add: parseDomainName_def parseLoop_self_pointer)
  moreover from a assms(1) have "12 < length buffer" by simp
  ultimately show "parseResponse buffer = None"
    using a by (simp add: parseResponse_def parseHeader_def readUInt16BE_def
        parseQuestionSection_def)
next
  assume "t < length buffer \<and> isEndOfName (buffer ! t)"
  with assms show "parseDomainName buffer p = Some ([], p + 2)"
    by (simp add: parseDomainName_def parseLoop_pointer parseLoop_end)
qed

theorem pointer_target_unchecked_witness:
  "parseDomainName [0, 0, 0x80, 0, 0, 0, 0, 0, 0, 0, 0, 0, 0xC0, 0x0C] 12 = None \<and>
   parseResponse [0, 0, 0x80, 0, 0, 0, 0, 0, 0, 0, 0, 0, 0xC0, 0x0C] = None \<and>
   parseDomainName [0xC0, 0x02, 0x00] 0 = Some ([], 2)"
proof -
  let ?b = "[0, 0, 0x80, 0, 0, 0, 0, 0, 0, 0, 0, 0, 0xC0, 0x0C] :: buffer"
  let ?c = "[0xC0, 0x02, 0x00] :: buffer"
  have b1: "12 < length ?b" by simp
  have b2: "isPointerIndicator (?b ! 12)" by code_simp
  have b3: "calculatePointerOffset (?b ! 12) ?b 12 = 12" by code_simp
  have b4: "isResponse ?b = Inr True" by (simp add: isResponse_def readUInt16BE_def)
  have c1: "0 < length ?c" by simp
  have c2: "isPointerIndicator (?c ! 0)" by code_simp
  have c3: "calculatePointerOffset (?c ! 0) ?c 0 = 2" by code_simp
  have c4: "2 < length ?c \<and> isEndOfName (?c ! 2)" by code_simp
  from pointer_target_unchecked[OF b1 b2 b3] b4 pointer_target_unchecked[OF c1 c2 c3] c4
  show ?thesis by simp
qed

text \<open>
  The claim as the specification states it fails on both counts: the self-pointing name
  \<open>C0 00\<close> is decoded forever, and the forward pointer \<open>C0 02\<close> is accepted.
\<close>

theorem pointer_safety_counterexample:
  "parseDomainName [0xC0, 0x00] 0 = None \<and>
   parseDomainName [0xC0, 0x02, 0x00] 0 = Some ([], 2)"
proof
  show "parseDomainName [0xC0, 0x00] 0 = None"
    unfolding parseDomainName_def
    by (rule parseLoop_self_pointer)
       (simp_all add: isPointerIndicator_def calculatePointerOffset_def)
  show "parseDomainName [0xC0, 0x02, 0x00] 0 = Some ([], 2)"
    by code_simp
qed

section \<open>Encoding a name and decoding it again\<close>

lemma encodeDomainName_labels:
  "encodeDomainName d = concat (map encodeLabel (map (map of_char) (splitDot d))) @ [0]"
  by (simp add: encodeDomainName_def encodeLabel_def comp_def)

text \<open>
  Claim C2, as the code has it. For every dotted name whose parts between the dots are
  each non-empty, at most 191 characters long and made of 7-bit characters, decoding
  the encoding of the name from offset 0 returns the name with a dot appended, and the
  position after the whole encoding.
\<close>

theorem encode_decode_roundtrip:
  assumes "\<forall>part \<in> set (splitDot d).
             part \<noteq> [] \<and> length part \<le> 191 \<and> (\<forall>c \<in> set part. of_char c < (128::nat))"
  shows "parseDomainName (encodeDomainName d) 0 =
         Some (d @ ''.'', length (encodeDomainName d))"
proof -
  let ?ls = "map (map of_char) (splitDot d) :: buffer list"
  have ok: "\<forall>l \<in> set ?ls. 0 < length l \<and> length l \<le> 191"
    using assms by auto
  have "map (\<lambda>l. asciiOf l @ ''.'') ?ls = map (\<lambda>part. part @ ''.'') (splitDot d)"
    using assms by (simp add: asciiOf_of_char)
  then have name: "concat (map (\<lambda>l. asciiOf l @ ''.'') ?ls) = d @ ''.''"
    by (simp only: splitDot_join)
  show ?thesis
    unfolding encodeDomainName_labels
    using parse_encoded_labels_at[OF ok, of "[]" "[]"] name by simp
qed

theorem encode_decode_roundtrip_witness:
  "parseDomainName (encodeDomainName ''www.youtube.com'') 0 = Some (''www.youtube.com.'', 17) \<and>
   length (encodeDomainName ''www.youtube.com'') = 17"
proof -
  have cond: "\<forall>part \<in> set (splitDot ''www.youtube.com'').
             part \<noteq> [] \<and> length part \<le> 191 \<and> (\<forall>c \<in> set part. of_char c < (128::nat))"
    by code_simp
  have len: "length (encodeDomainName ''www.youtube.com'') = 17"
    by code_simp
  from encode_decode_roundtrip[OF cond] len show ?thesis
    by simp
qed

text \<open>
  Outside these bounds the round trip fails. A label of 192 characters gets the length
  byte \<open>0xC0\<close>, which the decoder takes for a pointer: it jumps to offset 97, reads a
  label of 97 bytes there, leaves the buffer and never returns. The empty last label of
  \<open>a.\<close> is encoded like the end of the name. The character \<open>0xE9\<close> loses its
  highest bit.
\<close>

lemma splitDot_plain: "CHR ''.'' \<notin> set s \<Longrightarrow> splitDot s = [s]"
  by (induction s) auto

lemma encode_long_label:
  "encodeDomainName (replicate 192 (CHR ''a'')) = 0xC0 # replicate 192 0x61 @ [0]"
  by (simp add: encodeDomainName_def splitDot_plain)

lemma decode_long_label:
  "parseDomainName (encodeDomainName (replicate 192 (CHR ''a''))) 0 = None"
proof -
  let ?b = "0xC0 # replicate 192 0x61 @ [0] :: buffer"
  have p: "isPointerIndicator (?b ! 0)" by (simp add: isPointerIndicator_def)
  have t: "calculatePointerOffset (?b ! 0) ?b 0 = 97"
    by (simp add: calculatePointerOffset_def nth_append)
  have at: "?b ! 97 = 0x61" by (simp add: nth_append)
  have "parseLoop ?b ([], False, 0, Num 0) = parseLoop ?b ([], True, 2, Num 97)"
    using parseLoop_pointer[of 0 ?b "[]" False 0] p t by (simp add: numeral_2_eq_2)
  also have "\<dots> = parseLoop ?b ([] @ readLabel ?b 97 (unat (?b ! 97)) @ ''.'', True, 2,
                                 Num (97 + unat (?b ! 97) + 1))"
    by (subst parseLoop.simps, subst loopStep_literal)
       (simp_all add: nth_append isEndOfName_def isPointerIndicator_def)
  also have "\<dots> = None"
    unfolding at by (simp add: parseLoop_outside)
  finally show ?thesis
    by (simp add: parseDomainName_def encode_long_label)
qed

theorem roundtrip_counterexample:
  "parseDomainName (encodeDomainName (replicate 192 (CHR ''a''))) 0 = None \<and>
   parseDomainName (encodeDomainName ''a.'') 0 = Some (''a.'', 3) \<and>
   length (encodeDomainName ''a.'') = 4 \<and>
   parseDomainName (encodeDomainName [CHR 0xE9]) 0 = Some (''i.'', 3)"
proof (intro conjI)
  show "parseDomainName (encodeDomainName (replicate 192 (CHR ''a''))) 0 = None"
    by (rule decode_long_label)
  show "parseDomainName (encodeDomainName ''a.'') 0 = Some (''a.'', 3)"
    by code_simp
  show "length (encodeDomainName ''a.'') = 4"
    by code_simp
  show "parseDomainName (encodeDomainName [CHR 0xE9]) 0 = Some (''i.'', 3)"
    by code_simp
qed

section \<open>The offset after a name\<close>

text \<open>
  Claim C3. Let the loop of \<open>parseDomainName\<close>, started at \<open>offset\<close>, reach position
  \<open>p\<close> inside the buffer after \<open>n\<close> iterations without having met a pointer. If
  the byte at \<open>p\<close> is a pointer, it is the first one: every result the function
  returns has \<open>newOffset = p + 2\<close>, whatever is chased afterwards, and the function does
  return, with that offset, whenever some number of further iterations reaches a zero
  byte. If the byte at \<open>p\<close> is zero, the function returns the name read so far and
  \<open>newOffset = p + 1\<close>.
\<close>

theorem newOffset_after_first_pointer:
  assumes "runSteps n buffer ([], False, offset, Num offset) = Some (name, False, orig, Num p)"
    and "p < length buffer"
  shows "(isPointerIndicator (buffer ! p) \<longrightarrow>
            (\<forall>r. parseDomainName buffer offset = Some r \<longrightarrow> snd r = p + 2) \<and>
            (\<forall>m name' h orig' z.
               runSteps m buffer (name, False, orig, Num p) = Some (name', h, orig', Num z) \<and>
               z < length buffer \<and> isEndOfName (buffer ! z) \<longrightarrow>
               parseDomainName buffer offset = Some (name', p + 2))) \<and>
         (isEndOfName (buffer ! p) \<longrightarrow>
            parseDomainName buffer offset = Some (name, p + 1))"
proof -
  have reach: "parseDomainName buffer offset = parseLoop buffer (name, False, orig, Num p)"
    unfolding parseDomainName_def by (rule runSteps_parseLoop[OF assms(1)])
  have fixed: "snd r = p + 2"
    if ptr: "isPointerIndicator (buffer ! p)" and ret: "parseDomainName buffer offset = Some r"
    for r
  proof -
    from ret have "parseLoop buffer (name, True, p + 2,
                     Num (calculatePointerOffset (buffer ! p) buffer p)) = Some r"
      unfolding reach parseLoop_pointer[OF assms(2) ptr] by simp
    then show ?thesis by (rule parseLoop_after_pointer)
  qed
  show ?thesis
  proof (intro conjI impI allI)
    fix r
    assume "isPointerIndicator (buffer ! p)" and "parseDomainName buffer offset = Some r"
    then show "snd r = p + 2" by (rule fixed)
  next
    fix m name' h orig' z
    assume ptr: "isPointerIndicator (buffer ! p)"
      and chase: "runSteps m buffer (name, False, orig, Num p) = Some (name', h, orig', Num z) \<and>
                  z < length buffer \<and> isEndOfName (buffer ! z)"
    from chase have steps: "runSteps m buffer (name, False, orig, Num p) =
                              Some (name', h, orig', Num z)"
      and z: "z < length buffer" "isEndOfName (buffer ! z)"
      by simp_all
    have "parseLoop buffer (name, False, orig, Num p) =
          parseLoop buffer (name', h, orig', Num z)"
      by (rule runSteps_parseLoop[OF steps])
    also have "\<dots> = Some (name', if h then orig' else z + 1)"
      by (rule parseLoop_end[OF z])
    finally have ret: "parseDomainName buffer offset = Some (name', if h then orig' else z + 1)"
      unfolding reach .
    from fixed[OF ptr ret] have "(if h then orig' else z + 1) = p + 2" by simp
    with ret show "parseDomainName buffer offset = Some (name', p + 2)" by simp
  next
    assume "isEndOfName (buffer ! p)"
    then show "parseDomainName buffer offset = Some (name, p + 1)"
      unfolding reach by (simp add: parseLoop_end[OF assms(2)])
  qed
qed

theorem newOffset_after_first_pointer_witness:
  "parseDomainName [0x01, 0x61, 0x00, 0xC0, 0x00, 0x01, 0x62, 0xC0, 0x03] 5 = Some (''b.a.'', 9) \<and>
   parseDomainName [0x01, 0x61, 0x00, 0xC0, 0x00, 0x01, 0x62, 0xC0, 0x03] 0 = Some (''a.'', 3)"
proof -
  let ?b = "[0x01, 0x61, 0x00, 0xC0, 0x00, 0x01, 0x62, 0xC0, 0x03] :: buffer"
  have r5: "runSteps (Suc 0) ?b ([], False, 5, Num 5) = Some (''b.'', False, 5, Num 7)"
    by code_simp
  have r0: "runSteps (Suc 0) ?b ([], False, 0, Num 0) = Some (''a.'', False, 0, Num 2)"
    by code_simp
  have l7: "7 < length ?b" and l2: "2 < length ?b" by simp_all
  have p7: "isPointerIndicator (?b ! 7)" by code_simp
  have e2: "isEndOfName (?b ! 2)" by code_simp
  have chase: "runSteps (Suc (Suc (Suc 0))) ?b (''b.'', False, 5, Num 7) =
                 Some (''b.a.'', True, 9, Num 2)"
    by code_simp
  from newOffset_after_first_pointer[OF r5 l7] p7 chase l2 e2
  have "parseDomainName ?b 5 = Some (''b.a.'', 7 + 2)"
    by blast
  moreover from newOffset_after_first_pointer[OF r0 l2] e2
  have "parseDomainName ?b 0 = Some (''a.'', 2 + 1)"
    by blast
  ultimately show ?thesis by simp
qed

section \<open>The sections of a response\<close>




section \<open>The query packet\<close>

text \<open>
  Claim C6. The query is the identifier, the flags \<open>0\<close>, the question count \<open>1\<close>,
  three counts \<open>0\<close>, the encoded name, the type \<open>1\<close> and the class \<open>1\<close>, each
  number as two bytes; the encoded name is every part of the name between dots behind
  its length, then a zero byte. With a 2-byte identifier the fields read back at the
  offsets 0, 2, 4, 6, 8, 10, 12 and after the name.
\<close>

theorem createDNSQuery_layout:
  "createDNSQuery domain identifier =
     identifier @ uint16BE 0 @ uint16BE 1 @ uint16BE 0 @ uint16BE 0 @ uint16BE 0 @
     encodeDomainName domain @ uint16BE 1 @ uint16BE 1 \<and>
   encodeDomainName domain =
     concat (map (\<lambda>label. of_nat (length label) # map of_char label) (splitDot domain)) @ [0] \<and>
   concat (map (\<lambda>label. label @ ''.'') (splitDot domain)) = domain @ ''.'' \<and>
   (length identifier = 2 \<longrightarrow>
      take 2 (createDNSQuery domain identifier) = identifier \<and>
      readUInt16BE (createDNSQuery domain identifier) 2 = Inr 0 \<and>
      readUInt16BE (createDNSQuery domain identifier) 4 = Inr 1 \<and>
      readUInt16BE (createDNSQuery domain identifier) 6 = Inr 0 \<and>
      readUInt16BE (createDNSQuery domain identifier) 8 = Inr 0 \<and>
      readUInt16BE (createDNSQuery domain identifier) 10 = Inr 0 \<and>
      sliceBuffer (createDNSQuery domain identifier) 12 (12 + length (encodeDomainName domain)) =
        encodeDomainName domain \<and>
      readUInt16BE (createDNSQuery domain identifier) (12 + length (encodeDomainName domain)) =
        Inr 1 \<and>
      readUInt16BE (createDNSQuery domain identifier) (14 + length (encodeDomainName domain)) =
        Inr 1 \<and>
      length (createDNSQuery domain identifier) = 16 + length (encodeDomainName domain))"
proof (intro conjI impI)
  show "createDNSQuery domain identifier =
     identifier @ uint16BE 0 @ uint16BE 1 @ uint16BE 0 @ uint16BE 0 @ uint16BE 0 @
     encodeDomainName domain @ uint16BE 1 @ uint16BE 1"
    by (simp add: createDNSQuery_def uint16BE_def)
  show "encodeDomainName domain =
     concat (map (\<lambda>label. of_nat (length label) # map of_char label) (splitDot domain)) @ [0]"
    by (simp add: encodeDomainName_def)
  show "concat (map (\<lambda>label. label @ ''.'') (splitDot domain)) = domain @ ''.''"
    by (rule splitDot_join)
next
  assume len: "length identifier = 2"
  then obtain a b where ident: "identifier = [a, b]"
    by (auto simp: length_Suc_conv numeral_2_eq_2)
  define enc where "enc = encodeDomainName domain"
  have q: "createDNSQuery domain [a, b] =
           [a, b, 0, 0, 0, 1, 0, 0, 0, 0, 0, 0] @ enc @ [0, 1, 0, 1]"
    by (simp add: createDNSQuery_def enc_def)
  show "take 2 (createDNSQuery domain identifier) = identifier"
    unfolding ident q by simp
  show "readUInt16BE (createDNSQuery domain identifier) 2 = Inr 0"
    unfolding ident q by (simp add: readUInt16BE_def)
  show "readUInt16BE (createDNSQuery domain identifier) 4 = Inr 1"
    unfolding ident q by (simp add: readUInt16BE_def)
  show "readUInt16BE (createDNSQuery domain identifier) 6 = Inr 0"
    unfolding ident q by (simp add: readUInt16BE_def)
  show "readUInt16BE (createDNSQuery domain identifier) 8 = Inr 0"
    unfolding ident q by (simp add: readUInt16BE_def)
  show "readUInt16BE (createDNSQuery domain identifier) 10 = Inr 0"
    unfolding ident q by (simp add: readUInt16BE_def)
  show "sliceBuffer (createDNSQuery domain identifier) 12 (12 + length (encodeDomainName domain)) =
        encodeDomainName domain"
    unfolding ident q enc_def[symmetric] by (simp add: sliceBuffer_def)
  have at: "([a, b, 0, 0, 0, 1, 0, 0, 0, 0, 0, 0] @ enc @ [0, 1, 0, 1]) ! (12 + length enc + i)
            = [0, 1, 0, 1] ! i" for i
    by (simp add: nth_append)
  show "readUInt16BE (createDNSQuery domain identifier) (12 + length (encodeDomainName domain)) =
        Inr 1"
    unfolding ident q enc_def[symmetric] using at[of 0] at[of 1]
    by (simp add: readUInt16BE_def add.assoc)
  show "readUInt16BE (createDNSQuery domain identifier) (14 + length (encodeDomainName domain)) =
        Inr 1"
    unfolding ident q enc_def[symmetric] using at[of 2] at[of 3]
    by (simp add: readUInt16BE_def add.assoc add.commute)
  show "length (createDNSQuery domain identifier) = 16 + length (encodeDomainName domain)"
    unfolding ident q enc_def[symmetric] by simp
qed

theorem createDNSQuery_layout_witness:
  "createDNSQuery ''www.google.com'' [0xAB, 0xCD] =
     [0xAB, 0xCD, 0, 0, 0, 1, 0, 0, 0, 0, 0, 0,
      3, 0x77, 0x77, 0x77, 6, 0x67, 0x6F, 0x6F, 0x67, 0x6C, 0x65, 3, 0x63, 0x6F, 0x6D, 0,
      0, 1, 0, 1] \<and>
   readUInt16BE (createDNSQuery ''www.google.com'' [0xAB, 0xCD]) 4 = Inr 1 \<and>
   length (createDNSQuery ''www.google.com'' [0xAB, 0xCD]) = 32"
proof -
  have len: "length ([0xAB, 0xCD] :: buffer) = 2" by simp
  have enc: "encodeDomainName ''www.google.com'' =
             [3, 0x77, 0x77, 0x77, 6, 0x67, 0x6F, 0x6F, 0x67, 0x6C, 0x65, 3, 0x63, 0x6F, 0x6D, 0]"
    by code_simp
  from createDNSQuery_layout[of "''www.google.com''" "[0xAB, 0xCD]"] len
  have q: "createDNSQuery ''www.google.com'' [0xAB, 0xCD] =
     [0xAB, 0xCD, 0, 0, 0, 1, 0, 0, 0, 0, 0, 0,
      3, 0x77, 0x77, 0x77, 6, 0x67, 0x6F, 0x6F, 0x67, 0x6C, 0x65, 3, 0x63, 0x6F, 0x6D, 0,
      0, 1, 0, 1]"
    unfolding enc by (simp add: uint16BE_def)
  show ?thesis
    unfolding q by (simp add: readUInt16BE_def)
qed

section \<open>IPv6 addresses\<close>

lemma below_16: "d < 16 \<Longrightarrow> d \<in> {0::nat, 1, 2, 3, 4, 5, 6, 7, 8, 9, 10, 11, 12, 13, 14, 15}"
  by simp arith

lemma digitChar_value: "d < 16 \<Longrightarrow> hexDigitValue (digitChar d) = d"
  by (drule below_16) (auto simp: hexDigitValue_def digitChar_def)

lemma digitChar_lowercase: "d < 16 \<Longrightarrow> digitChar d \<in> set ''0123456789abcdef''"
  by (drule below_16) (auto simp: digitChar_def)

lemma digitChar_zero: "d < 16 \<Longrightarrow> digitChar d = CHR ''0'' \<Longrightarrow> d = 0"
  by (drule below_16) (auto simp: digitChar_def)

lemma hexValue_snoc: "hexValue (s @ [c]) = 16 * hexValue s + hexDigitValue c"
  by (simp add: hexValue_def)

lemma numberToString_hex_nonempty: "numberToString 16 n \<noteq> []"
  by (subst numberToString.simps) simp

lemma hexValue_numberToString: "hexValue (numberToString 16 n) = n"
proof (induction n rule: less_induct)
  case (less n)
  show ?case
  proof (cases "n < 16")
    case True
    then show ?thesis
      by (subst numberToString.simps) (simp add: hexValue_def digitChar_value)
  next
    case False
    then have "n div 16 < n" by simp
    from less[OF this] False show ?thesis
      by (subst numberToString.simps) (simp add: hexValue_snoc digitChar_value)
  qed
qed

lemma numberToString_lowercase: "set (numberToString 16 n) \<subseteq> set ''0123456789abcdef''"
proof (induction n rule: less_induct)
  case (less n)
  show ?case
  proof (cases "n < 16")
    case True
    then show ?thesis
      using digitChar_lowercase[of n] by (subst numberToString.simps) simp
  next
    case False
    then have "n div 16 < n" by simp
    from less[OF this] False digitChar_lowercase[of "n mod 16"] show ?thesis
      by (subst numberToString.simps) simp
  qed
qed

lemma numberToString_no_padding: "0 < n \<Longrightarrow> hd (numberToString 16 n) \<noteq> CHR ''0''"
proof (induction n rule: less_induct)
  case (less n)
  show ?case
  proof (cases "n < 16")
    case True
    with less.prems show ?thesis
      using digitChar_zero[of n] by (subst numberToString.simps) auto
  next
    case False
    then have "n div 16 < n" and "0 < n div 16" by (simp_all add: div_greater_zero_iff)
    from less.IH[OF this] False show ?thesis
      by (subst numberToString.simps) (simp add: numberToString_hex_nonempty)
  qed
qed

lemma interpretIPv6Loop_16:
  assumes "length rdata = 16"
  shows "interpretIPv6Loop rdata 0 [] = Inr (map (\<lambda>i. numberToString 16 (group16 rdata i)) [0..<8])"
proof -
  have step: "i < 8 \<Longrightarrow> interpretIPv6Loop rdata (2 * i) parts =
              interpretIPv6Loop rdata (2 * Suc i) (parts @ [numberToString 16 (group16 rdata i)])"
    for i parts
    using assms
    by (subst interpretIPv6Loop.simps) (simp add: readUInt16BE_def group16_def HEX_BASE_def)
  have fin: "interpretIPv6Loop rdata (2 * 8) parts = Inr parts" for parts
    using assms by (subst interpretIPv6Loop.simps) simp
  have gen: "interpretIPv6Loop rdata (2 * i) parts =
             Inr (parts @ map (\<lambda>i. numberToString 16 (group16 rdata i)) [i..<8])"
    if "n = 8 - i" "i \<le> 8" for n i parts
    using that
  proof (induction n arbitrary: i parts)
    case 0
    then have "i = 8" by simp
    then show ?case using fin by simp
  next
    case (Suc n)
    then have lt: "i < 8" and n: "n = 8 - Suc i" and le: "Suc i \<le> 8" by simp_all
    have "interpretIPv6Loop rdata (2 * i) parts =
          interpretIPv6Loop rdata (2 * Suc i) (parts @ [numberToString 16 (group16 rdata i)])"
      by (rule step[OF lt])
    also have "\<dots> = Inr ((parts @ [numberToString 16 (group16 rdata i)]) @
                 map (\<lambda>i. numberToString 16 (group16 rdata i)) [Suc i..<8])"
      by (rule Suc.IH[OF n le])
    also have "\<dots> = Inr (parts @ map (\<lambda>i. numberToString 16 (group16 rdata i)) [i..<8])"
      using lt by (simp add: upt_conv_Cons)
    finally show ?case .
  qed
  from gen[of 8 0 "[]"] show ?thesis by simp
qed

text \<open>
  Claim C7. For 16 bytes of data and the type AAAA (28) the result is the eight 16-bit
  big-endian groups, each written by \<open>toString(16)\<close>, joined by colons. Each of these
  strings consists of lowercase hexadecimal digits, stands for the value of its group and
  starts with \<open>0\<close> only when the group is zero. The bytes
  \<open>[32,1,13,184,0,0,8,0,0,0,0,0,0,0,0,1]\<close> give \<open>2001:db8:0:800:0:0:0:1\<close>.
\<close>

theorem interpret_AAAA:
  assumes "length rdata = 16"
  shows "interpretRDataARecord rdata AAAA_RECORD_TYPE =
           Inr (join '':'' (map (\<lambda>i. numberToString 16 (group16 rdata i)) [0..<8])) \<and>
         (\<forall>i < 8. hexValue (numberToString 16 (group16 rdata i)) = group16 rdata i \<and>
                  set (numberToString 16 (group16 rdata i)) \<subseteq> set ''0123456789abcdef'' \<and>
                  (0 < group16 rdata i \<longrightarrow> hd (numberToString 16 (group16 rdata i)) \<noteq> CHR ''0'')) \<and>
         AAAA_RECORD_TYPE = 28 \<and>
         interpretRDataARecord [32, 1, 13, 184, 0, 0, 8, 0, 0, 0, 0, 0, 0, 0, 0, 1] 28 =
           Inr ''2001:db8:0:800:0:0:0:1''"
proof (intro conjI allI impI)
  show "interpretRDataARecord rdata AAAA_RECORD_TYPE =
           Inr (join '':'' (map (\<lambda>i. numberToString 16 (group16 rdata i)) [0..<8]))"
    by (simp add: interpretRDataARecord_def AAAA_RECORD_TYPE_def A_RECORD_TYPE_def
        interpretIPv6Address_def interpretIPv6Loop_16[OF assms])
  show "AAAA_RECORD_TYPE = 28" by (simp add: AAAA_RECORD_TYPE_def)
  show "interpretRDataARecord [32, 1, 13, 184, 0, 0, 8, 0, 0, 0, 0, 0, 0, 0, 0, 1] 28 =
           Inr ''2001:db8:0:800:0:0:0:1''"
    by (simp add: interpretRDataARecord_def AAAA_RECORD_TYPE_def A_RECORD_TYPE_def
        interpretIPv6Address_def interpretIPv6Loop.simps readUInt16BE_def HEX_BASE_def
        numberToString.simps digitChar_def)
next
  fix i
  show "hexValue (numberToString 16 (group16 rdata i)) = group16 rdata i"
    by (rule hexValue_numberToString)
  show "set (numberToString 16 (group16 rdata i)) \<subseteq> set ''0123456789abcdef''"
    by (rule numberToString_lowercase)
  assume "0 < group16 rdata i"
  then show "hd (numberToString 16 (group16 rdata i)) \<noteq> CHR ''0''"
    by (rule numberToString_no_padding)
qed

theorem interpret_AAAA_witness:
  "interpretRDataARecord [32, 1, 13, 184, 0, 0, 8, 0, 0, 0, 0, 0, 0, 0, 0, 1] AAAA_RECORD_TYPE =
     Inr ''2001:db8:0:800:0:0:0:1'' \<and>
   hexValue ''db8'' = 3512 \<and> hd ''db8'' \<noteq> CHR ''0''"
proof -
  let ?r = "[32, 1, 13, 184, 0, 0, 8, 0, 0, 0, 0, 0, 0, 0, 0, 1] :: buffer"
  have len: "length ?r = 16" by simp
  have g: "map (\<lambda>i. numberToString 16 (group16 ?r i)) [0..<8] =
           [''2001'', ''db8'', ''0'', ''800'', ''0'', ''0'', ''0'', ''1'']"
    by (simp add: upt_conv_Cons group16_def numberToString.simps digitChar_def)
  have g1: "group16 ?r 1 = 3512" by (simp add: group16_def)
  have s1: "numberToString 16 3512 = ''db8''"
    by (simp add: numberToString.simps digitChar_def)
  from interpret_AAAA[OF len] have
    a: "interpretRDataARecord ?r AAAA_RECORD_TYPE =
          Inr (join '':'' (map (\<lambda>i. numberToString 16 (group16 ?r i)) [0..<8]))" and
    b: "\<forall>i < 8. hexValue (numberToString 16 (group16 ?r i)) = group16 ?r i \<and>
                  set (numberToString 16 (group16 ?r i)) \<subseteq> set ''0123456789abcdef'' \<and>
                  (0 < group16 ?r i \<longrightarrow> hd (numberToString 16 (group16 ?r i)) \<noteq> CHR ''0'')"
    by blast+
  from b have "hexValue (numberToString 16 (group16 ?r 1)) = group16 ?r 1 \<and>
     (0 < group16 ?r 1 \<longrightarrow> hd (numberToString 16 (group16 ?r 1)) \<noteq> CHR ''0'')"
    by simp
  then have "hexValue ''db8'' = 3512 \<and> hd ''db8'' \<noteq> CHR ''0''"
    unfolding g1 s1 by simp
  moreover from a have "interpretRDataARecord ?r AAAA_RECORD_TYPE = Inr ''2001:db8:0:800:0:0:0:1''"
    unfolding g by simp
  ultimately show ?thesis by simp
qed

section \<open>The decision after a response\<close>

text \<open>
  Claim C4, as the code has it. When the authority section of a parsed response holds an
  NS record and no additional record is named like the target of the first one,
  \<open>processDNSResponse\<close> calls nothing, logs nothing and throws nothing.
\<close>

theorem missing_glue_is_silent:
  assumes "parseResponse message = Some (Inr response)"
    and "filter (\<lambda>rec. rec_type rec = NS_RECORD_TYPE) (authorityRecords response) =
           nsRecord # others"
    and "\<forall>rec \<in> set (additionalRecords response). rec_domainName rec \<noteq> rec_rdata nsRecord"
  shows "processDNSResponse response = Inr NoEffect \<and> onMessage message = Some (Inr NoEffect)"
proof -
  from assms(3) have "find (\<lambda>rec. rec_domainName rec = rec_rdata nsRecord)
                        (additionalRecords response) = None"
    by (simp add: find_None_iff)
  with assms(2) have "processDNSResponse response = Inr NoEffect"
    by (simp add: processDNSResponse_def)
  with assms(1) show ?thesis by (simp add: onMessage_def)
qed

theorem missing_glue_is_silent_witness:
  "onMessage noGlueMessage = Some (Inr NoEffect)"
proof -
  let ?ns = "\<lparr>rec_domainName = ''a.'', rec_type = 2, rec_rdata = ''ns.'', rec_offset = 35\<rparr>"
  let ?r = "\<lparr>header = \<lparr>transactionID = 4660, questionsCount = 1, answersCount = 0,
                 authorityCount = 1, additionalCount = 0\<rparr>,
      questionName = ''a.'', answerRecords = [],
      authorityRecords = [?ns], additionalRecords = []\<rparr>"
  have f: "filter (\<lambda>rec. rec_type rec = NS_RECORD_TYPE) (authorityRecords ?r) = ?ns # []"
    by (simp add: NS_RECORD_TYPE_def)
  have g: "\<forall>rec \<in> set (additionalRecords ?r). rec_domainName rec \<noteq> rec_rdata ?ns"
    by simp
  from missing_glue_is_silent[OF parse_noGlueMessage f g] show ?thesis by simp
qed

text \<open>
  So the hop ends silently where the specification asks for an error: the message
  \<open>noGlueMessage\<close> parses to an NS record without glue, and processing it has no effect.
\<close>

theorem missing_glue_counterexample:
  "parseResponse noGlueMessage = Some (Inr
     \<lparr>header = \<lparr>transactionID = 4660, questionsCount = 1, answersCount = 0,
                 authorityCount = 1, additionalCount = 0\<rparr>,
      questionName = ''a.'', answerRecords = [],
      authorityRecords = [\<lparr>rec_domainName = ''a.'', rec_type = 2, rec_rdata = ''ns.'',
                            rec_offset = 35\<rparr>],
      additionalRecords = []\<rparr>) \<and>
   processDNSResponse
     \<lparr>header = \<lparr>transactionID = 4660, questionsCount = 1, answersCount = 0,
                 authorityCount = 1, additionalCount = 0\<rparr>,
      questionName = ''a.'', answerRecords = [],
      authorityRecords = [\<lparr>rec_domainName = ''a.'', rec_type = 2, rec_rdata = ''ns.'',
                            rec_offset = 35\<rparr>],
      additionalRecords = []\<rparr> = Inr NoEffect"
  by (simp add: parse_noGlueMessage processDNSResponse_def NS_RECORD_TYPE_def)

lemma query_name:
  assumes "length identifier = 2"
  shows "parseDomainName (createDNSQuery ''www.google.com'' identifier) 12 =
         Some (''www.google.com.'', 28)"
proof -
  let ?ls = "[[0x77, 0x77, 0x77], [0x67, 0x6F, 0x6F, 0x67, 0x6C, 0x65], [0x63, 0x6F, 0x6D]] :: buffer list"
  let ?pre = "identifier @ [0, 0, 0, 1, 0, 0, 0, 0, 0, 0] :: buffer"
  have enc: "encodeDomainName ''www.google.com'' = concat (map encodeLabel ?ls) @ [0]"
    by code_simp
  have q: "createDNSQuery ''www.google.com'' identifier =
           ?pre @ concat (map encodeLabel ?ls) @ 0 # [0, 1, 0, 1]"
    unfolding createDNSQuery_def Let_def enc by simp
  have len: "length ?pre = 12" using assms by simp
  have name: "concat (map (\<lambda>l. asciiOf l @ ''.'') ?ls) = ''www.google.com.''"
    by code_simp
  have n: "length (concat (map encodeLabel ?ls)) = 15"
    by code_simp
  have "parseDomainName (?pre @ concat (map encodeLabel ?ls) @ 0 # [0, 1, 0, 1]) (length ?pre) =
        Some (concat (map (\<lambda>l. asciiOf l @ ''.'') ?ls),
              length ?pre + length (concat (map encodeLabel ?ls)) + 1)"
    by (rule parse_encoded_labels_at) simp
  then show ?thesis
    unfolding q[symmetric] len name n by simp
qed

text \<open>
  Claim C8, as the code has it. When the authority section holds an NS record and the
  first additional record named like the target of the first NS record has non-empty
  data, \<open>processDNSResponse\<close> calls \<open>queryDNS\<close> with the domain to resolve and that
  data as the server; the datagram goes to port 53 of that server, and the name in its
  question is the domain to resolve.
\<close>

theorem delegation_requery:
  assumes "filter (\<lambda>rec. rec_type rec = NS_RECORD_TYPE) (authorityRecords response) =
             nsRecord # others"
    and "find (\<lambda>rec. rec_domainName rec = rec_rdata nsRecord) (additionalRecords response) =
           Some glue"
    and "rec_rdata glue \<noteq> []"
    and "length identifier = 2"
  shows "processDNSResponse response = Inr (CallQueryDNS DOMAIN_TO_RESOLVE (rec_rdata glue)) \<and>
         queryDNS DOMAIN_TO_RESOLVE (rec_rdata glue) identifier =
           (createDNSQuery ''www.google.com'' identifier, 53, rec_rdata glue) \<and>
         parseDomainName (createDNSQuery ''www.google.com'' identifier) 12 =
           Some (''www.google.com.'', 28)"
proof (intro conjI)
  from assms(1-3)
  show "processDNSResponse response = Inr (CallQueryDNS DOMAIN_TO_RESOLVE (rec_rdata glue))"
    by (simp add: processDNSResponse_def)
  show "queryDNS DOMAIN_TO_RESOLVE (rec_rdata glue) identifier =
           (createDNSQuery ''www.google.com'' identifier, 53, rec_rdata glue)"
    by (simp add: queryDNS_def DOMAIN_TO_RESOLVE_def DNS_PORT_def)
  show "parseDomainName (createDNSQuery ''www.google.com'' identifier) 12 =
           Some (''www.google.com.'', 28)"
    by (rule query_name[OF assms(4)])
qed

theorem delegation_requery_witness:
  "processDNSResponse
     \<lparr>header = \<lparr>transactionID = 4660, questionsCount = 1, answersCount = 0,
                 authorityCount = 1, additionalCount = 1\<rparr>,
      questionName = ''www.google.com.'', answerRecords = [],
      authorityRecords = [\<lparr>rec_domainName = ''com.'', rec_type = 2,
                            rec_rdata = ''ns1.example.'', rec_offset = 60\<rparr>],
      additionalRecords = [\<lparr>rec_domainName = ''ns1.example.'', rec_type = 1,
                             rec_rdata = ''10.0.0.1'', rec_offset = 76\<rparr>]\<rparr> =
     Inr (CallQueryDNS ''www.google.com'' ''10.0.0.1'') \<and>
   queryDNS ''www.google.com'' ''10.0.0.1'' [0xAB, 0xCD] =
     (createDNSQuery ''www.google.com'' [0xAB, 0xCD], 53, ''10.0.0.1'')"
proof -
  let ?ns = "\<lparr>rec_domainName = ''com.'', rec_type = 2,
               rec_rdata = ''ns1.example.'', rec_offset = 60\<rparr>"
  let ?glue = "\<lparr>rec_domainName = ''ns1.example.'', rec_type = 1,
                 rec_rdata = ''10.0.0.1'', rec_offset = 76\<rparr>"
  let ?r = "\<lparr>header = \<lparr>transactionID = 4660, questionsCount = 1, answersCount = 0,
                 authorityCount = 1, additionalCount = 1\<rparr>,
      questionName = ''www.google.com.'', answerRecords = [],
      authorityRecords = [?ns], additionalRecords = [?glue]\<rparr>"
  have f: "filter (\<lambda>rec. rec_type rec = NS_RECORD_TYPE) (authorityRecords ?r) = ?ns # []"
    by (simp add: NS_RECORD_TYPE_def)
  have g: "find (\<lambda>rec. rec_domainName rec = rec_rdata ?ns) (additionalRecords ?r) = Some ?glue"
    by simp
  have h: "rec_rdata ?glue \<noteq> []" by simp
  have i: "length ([0xAB, 0xCD] :: buffer) = 2" by simp
  from delegation_requery[OF f g h i] show ?thesis
    by (simp add: DOMAIN_TO_RESOLVE_def)
qed

text \<open>
  A matching additional record with empty data, as parsed from a record with data length
  zero, stops the walk instead.
\<close>

theorem delegation_requery_counterexample:
  "parseResponse emptyGlueMessage = Some (Inr
     \<lparr>header = \<lparr>transactionID = 4660, questionsCount = 1, answersCount = 0,
                 authorityCount = 1, additionalCount = 1\<rparr>,
      questionName = ''a.'', answerRecords = [],
      authorityRecords = [\<lparr>rec_domainName = ''a.'', rec_type = 2, rec_rdata = ''ns.'',
                            rec_offset = 35\<rparr>],
      additionalRecords = [\<lparr>rec_domainName = ''ns.'', rec_type = 1, rec_rdata = [],
                             rec_offset = 47\<rparr>]\<rparr>) \<and>
   processDNSResponse
     \<lparr>header = \<lparr>transactionID = 4660, questionsCount = 1, answersCount = 0,
                 authorityCount = 1, additionalCount = 1\<rparr>,
      questionName = ''a.'', answerRecords = [],
      authorityRecords = [\<lparr>rec_domainName = ''a.'', rec_type = 2, rec_rdata = ''ns.'',
                            rec_offset = 35\<rparr>],
      additionalRecords = [\<lparr>rec_domainName = ''ns.'', rec_type = 1, rec_rdata = [],
                             rec_offset = 47\<rparr>]\<rparr> = Inr NoEffect"
  by (simp add: parse_emptyGlueMessage processDNSResponse_def NS_RECORD_TYPE_def)



end
